theory Spec2Isabelle
  imports Complex_Main
begin

unbundle bit_operations_syntax

section \<open>Python string primitives used by backend/app.py\<close>

text \<open>
  A Python \<open>str\<close> is modelled as a \<open>string\<close> whose characters are the code points
  0..255. Floating-point scores are modelled as exact reals.
\<close>

definition py_isspace :: "char \<Rightarrow> bool" where
  \<comment> \<open>\<open>str.isspace\<close> on one code point below 256\<close>
  "py_isspace c =
     (let n = (of_char c :: nat)
      in (9 \<le> n \<and> n \<le> 13) \<or> (28 \<le> n \<and> n \<le> 32) \<or> n = 133 \<or> n = 160)"

definition py_lower_char :: "char \<Rightarrow> char" where
  \<comment> \<open>\<open>str.lower\<close> on one code point below 256\<close>
  "py_lower_char c =
     (let n = (of_char c :: nat)
      in if (65 \<le> n \<and> n \<le> 90) \<or> (192 \<le> n \<and> n \<le> 222 \<and> n \<noteq> 215)
         then char_of (n + 32) else c)"

definition py_lower :: "string \<Rightarrow> string" where
  "py_lower s = map py_lower_char s"

fun split_ws :: "string \<Rightarrow> string \<Rightarrow> string list" where
  \<comment> \<open>\<open>str.split()\<close> without separator; the first argument is the word being read\<close>
  "split_ws cur [] = (if cur = [] then [] else [cur])"
| "split_ws cur (c # cs) =
     (if py_isspace c
      then (if cur = [] then split_ws [] cs else cur # split_ws [] cs)
      else split_ws (cur @ [c]) cs)"

definition py_split :: "string \<Rightarrow> string list" where
  "py_split s = split_ws [] s"

definition py_strip :: "string \<Rightarrow> string" where
  \<comment> \<open>\<open>str.strip()\<close>\<close>
  "py_strip s = rev (dropWhile py_isspace (rev (dropWhile py_isspace s)))"

fun py_contains :: "string \<Rightarrow> string \<Rightarrow> bool" where
  \<comment> \<open>\<open>d in s\<close> for strings\<close>
  "py_contains d [] = (d = [])"
| "py_contains d (c # cs) = (take (length d) (c # cs) = d \<or> py_contains d cs)"

fun split_sep :: "char \<Rightarrow> char \<Rightarrow> string \<Rightarrow> string \<Rightarrow> string list" where
  \<comment> \<open>\<open>s.split(d)\<close> for a two-character separator \<open>d = [a, b]\<close>, scanning left to right;
      the third argument is the segment being read\<close>
  "split_sep a b cur (x # y # rest) =
     (if x = a \<and> y = b then cur # split_sep a b [] rest
      else split_sep a b (cur @ [x]) (y # rest))"
| "split_sep a b cur [x] = [cur @ [x]]"
| "split_sep a b cur [] = [cur]"

definition py_split_on :: "string \<Rightarrow> string \<Rightarrow> string list" where
  \<comment> \<open>\<open>s.split(d)\<close>; the source only passes the separators \<open>'. '\<close>, \<open>'! '\<close>, \<open>'? '\<close>\<close>
  "py_split_on d s = (case d of [a, b] \<Rightarrow> split_sep a b [] s | _ \<Rightarrow> [s])"

definition ellipsis47 :: "string \<Rightarrow> string" where
  \<comment> \<open>\<open>s[:47] + "..."\<close>\<close>
  "ellipsis47 s = take 47 s @ ''...''"

section \<open>Fallback providers (OptimizedAIModels)\<close>

record scored =
  label :: string
  score :: real

definition positive_keywords :: "string set" where
  "positive_keywords =
     {''excellent'', ''great'', ''good'', ''positive'', ''support'', ''benefit'',
      ''improve'', ''welcome'', ''appreciate'', ''effective'', ''successful'',
      ''helpful'', ''valuable'', ''outstanding'', ''wonderful'', ''amazing'',
      ''fantastic'', ''brilliant'', ''perfect'', ''love'', ''like'', ''enjoy''}"

definition negative_keywords :: "string set" where
  "negative_keywords =
     {''terrible'', ''bad'', ''negative'', ''oppose'', ''against'', ''harm'',
      ''problem'', ''concerned'', ''worried'', ''disappointed'', ''frustrated'',
      ''angry'', ''upset'', ''awful'', ''horrible'', ''hate'', ''dislike'',
      ''reject'', ''refuse'', ''fail'', ''failure'', ''wrong'', ''error''}"

definition FastSentimentAnalyzer :: "string \<Rightarrow> scored list" where
  \<comment> \<open>\<open>FastSentimentAnalyzer.__call__\<close>\<close>
  "FastSentimentAnalyzer text =
     (let text_lower = py_lower text;
          words = set (py_split text_lower);
          pos_score = card (words \<inter> positive_keywords);
          neg_score = card (words \<inter> negative_keywords)
      in if pos_score > neg_score
         then [\<lparr>label = ''POSITIVE'',
                score = min 0.95 (0.7 + real (pos_score - neg_score) * 0.1)\<rparr>]
         else if neg_score > pos_score
         then [\<lparr>label = ''NEGATIVE'',
                score = min 0.95 (0.7 + real (neg_score - pos_score) * 0.1)\<rparr>]
         else [\<lparr>label = ''NEUTRAL'', score = 0.6\<rparr>])"

definition first_sentences :: "string \<Rightarrow> string list" where
  \<comment> \<open>the \<open>for delimiter in ['. ', '! ', '? ']\<close> loop with its \<open>break\<close>\<close>
  "first_sentences text =
     (let segs = (\<lambda>d. filter (\<lambda>s. s \<noteq> []) (map py_strip (py_split_on d text)))
      in if py_contains ''. '' text then segs ''. ''
         else if py_contains ''! '' text then segs ''! ''
         else if py_contains ''? '' text then segs ''? ''
         else [])"

definition FastSummarizer :: "string \<Rightarrow> string list" where
  \<comment> \<open>\<open>FastSummarizer.__call__\<close>; the result list holds the \<open>summary_text\<close> of each entry\<close>
  "FastSummarizer text0 =
     (if text0 = [] \<or> length (py_strip text0) = 0 then [''No content'']
      else let text = py_strip text0
           in if length text \<le> 50 then [text]
              else (case first_sentences text of
                      summary # _ \<Rightarrow>
                        [if length summary > 47 then ellipsis47 summary else summary]
                    | [] \<Rightarrow> [if length text > 47 then ellipsis47 text else text]))"

section \<open>Exceptions, provider results and the per-process state\<close>

datatype exn = IndexError | ValueError | ProviderError | OperationalError | IntegrityError

text \<open>
  A sentiment provider returns either a list of scored labels (the fallback analyzer) or
  a list of such lists (a pipeline created with \<open>return_all_scores=True\<close>). A summary
  provider returns a list of entries, each carrying a \<open>summary_text\<close>. A provider call
  may raise instead; labels, scores, texts and list lengths are unconstrained.
\<close>

datatype sentiment_result = Flat "scored list" | Nested "scored list list"

type_synonym summary_result = "string list"

text \<open>
  \<open>OptimizedAIModels\<close>: the two resolved providers and the two caches. A Python \<open>dict\<close>
  keeps insertion order, so a cache is an association list in insertion order. The two
  invocation counters are ghost fields: they count the calls made to each provider.
\<close>

record ai_models =
  sentiment_analyzer :: "string \<Rightarrow> exn + sentiment_result"
  summarizer :: "string \<Rightarrow> exn + summary_result"
  sentiment_cache :: "(int \<times> sentiment_result) list"
  summary_cache :: "(int \<times> summary_result) list"
  sentiment_calls :: nat
  summary_calls :: nat

subsection \<open>Dictionary operations\<close>

fun dict_setitem :: "'k \<Rightarrow> 'v \<Rightarrow> ('k \<times> 'v) list \<Rightarrow> ('k \<times> 'v) list" where
  \<comment> \<open>\<open>d[k] = v\<close>: an existing key keeps its position, a new key goes last\<close>
  "dict_setitem k v [] = [(k, v)]"
| "dict_setitem k v (p # d) =
     (if fst p = k then (k, v) # d else p # dict_setitem k v d)"

definition dict_delitem :: "'k \<Rightarrow> ('k \<times> 'v) list \<Rightarrow> ('k \<times> 'v) list" where
  \<comment> \<open>\<open>del d[k]\<close> for a key taken from \<open>d\<close>\<close>
  "dict_delitem k d = filter (\<lambda>p. fst p \<noteq> k) d"

definition cache_get :: "int \<Rightarrow> (int \<times> 'v) list \<Rightarrow> 'v option" where
  \<comment> \<open>first locked block of \<open>get_*_cached\<close>: \<open>if text_hash in cache: return cache[text_hash]\<close>\<close>
  "cache_get text_hash cache = map_of cache text_hash"

definition cache_put :: "int \<Rightarrow> 'v \<Rightarrow> (int \<times> 'v) list \<Rightarrow> (int \<times> 'v) list" where
  \<comment> \<open>second locked block of \<open>get_*_cached\<close>: store, then limit the cache size\<close>
  "cache_put text_hash result cache =
     (let cache1 = dict_setitem text_hash result cache
      in if length cache1 > 1000
         then (let keys_to_remove = take 100 (map fst cache1)
               in fold dict_delitem keys_to_remove cache1)
         else cache1)"

subsection \<open>Cached provider calls\<close>

text \<open>
  The first parameter is the built-in \<open>hash\<close> of the running interpreter, restricted to
  strings.
\<close>

definition get_sentiment_cached ::
  "(string \<Rightarrow> int) \<Rightarrow> ai_models \<Rightarrow> string \<Rightarrow> (exn + sentiment_result) \<times> ai_models" where
  "get_sentiment_cached h m text =
     (let text_hash = h text
      in case cache_get text_hash (sentiment_cache m) of
           Some cached \<Rightarrow> (Inr cached, m)
         | None \<Rightarrow>
             (case sentiment_analyzer m text of
                Inl e \<Rightarrow> (Inl e, m\<lparr>sentiment_calls := Suc (sentiment_calls m)\<rparr>)
              | Inr result \<Rightarrow>
                  (Inr result,
                   m\<lparr>sentiment_cache := cache_put text_hash result (sentiment_cache m),
                     sentiment_calls := Suc (sentiment_calls m)\<rparr>)))"

definition get_summary_cached ::
  "(string \<Rightarrow> int) \<Rightarrow> ai_models \<Rightarrow> string \<Rightarrow> (exn + summary_result) \<times> ai_models" where
  "get_summary_cached h m text =
     (let text_hash = h text
      in case cache_get text_hash (summary_cache m) of
           Some cached \<Rightarrow> (Inr cached, m)
         | None \<Rightarrow>
             (case summarizer m text of
                Inl e \<Rightarrow> (Inl e, m\<lparr>summary_calls := Suc (summary_calls m)\<rparr>)
              | Inr result \<Rightarrow>
                  (Inr result,
                   m\<lparr>summary_cache := cache_put text_hash result (summary_cache m),
                     summary_calls := Suc (summary_calls m)\<rparr>)))"

section \<open>Helper functions of the request pipeline\<close>

fun py_max_score :: "scored list \<Rightarrow> exn + scored" where
  \<comment> \<open>\<open>max(results, key=lambda x: x['score'])\<close>: the first entry of maximal score\<close>
  "py_max_score [] = Inl ValueError"
| "py_max_score (x # xs) =
     Inr (foldl (\<lambda>best y. if score y > score best then y else best) x xs)"

definition label_mapping :: "(string \<times> string) list" where
  "label_mapping =
     [(''LABEL_0'', ''negative''), (''LABEL_1'', ''neutral''), (''LABEL_2'', ''positive''),
      (''NEGATIVE'', ''negative''), (''NEUTRAL'', ''neutral''), (''POSITIVE'', ''positive'')]"

definition best_sentiment :: "sentiment_result \<Rightarrow> exn + string \<times> real" where
  \<comment> \<open>the part of the \<open>try\<close> body of \<open>analyze_sentiment_fast\<close> after the cached call\<close>
  "best_sentiment results0 =
     (case (case results0 of
              Flat [] \<Rightarrow> Inl IndexError
            | Flat (x # xs) \<Rightarrow> Inr (x # xs)
            | Nested [] \<Rightarrow> Inl IndexError
            | Nested (r # rs) \<Rightarrow> Inr r) of
        Inl e \<Rightarrow> Inl e
      | Inr results \<Rightarrow>
          (case py_max_score results of
             Inl e \<Rightarrow> Inl e
           | Inr best_result \<Rightarrow>
               Inr (case map_of label_mapping (label best_result) of
                      Some l \<Rightarrow> l
                    | None \<Rightarrow> py_lower (label best_result),
                    score best_result)))"

definition analyze_sentiment_fast ::
  "(string \<Rightarrow> int) \<Rightarrow> ai_models \<Rightarrow> string \<Rightarrow> (exn + string \<times> real) \<times> ai_models" where
  "analyze_sentiment_fast h m text =
     (case get_sentiment_cached h m text of
        (Inl e, m') \<Rightarrow> (Inr (''neutral'', 0.5), m')
      | (Inr results, m') \<Rightarrow>
          (case best_sentiment results of
             Inl e \<Rightarrow> (Inr (''neutral'', 0.5), m')
           | Inr r \<Rightarrow> (Inr r, m')))"

definition generate_summary_fast ::
  "(string \<Rightarrow> int) \<Rightarrow> ai_models \<Rightarrow> string \<Rightarrow> (exn + string) \<times> ai_models" where
  "generate_summary_fast h m text =
     (if length (py_split text) < 3
      then (Inr (if length text \<le> 50 then take 50 text else ellipsis47 text), m)
      else (case get_summary_cached h m text of
              (Inl e, m') \<Rightarrow> (Inr (if length text > 47 then ellipsis47 text else text), m')
            | (Inr [], m') \<Rightarrow> (Inr (if length text > 47 then ellipsis47 text else text), m')
            | (Inr (summary # _), m') \<Rightarrow>
                (Inr (if length summary > 50 then ellipsis47 summary else summary), m')))"

record comment_data =
  timestamp :: string
  stakeholder_type :: string
  raw_text :: string
  sentiment_label :: string
  sentiment_score :: real
  summary :: string

definition process_comment_async ::
  "(string \<Rightarrow> int) \<Rightarrow> ai_models \<Rightarrow> string \<Rightarrow> string \<Rightarrow> string
     \<Rightarrow> (exn + comment_data) \<times> ai_models" where
  \<comment> \<open>\<open>now\<close> is the formatted clock reading. The two executor tasks touch disjoint caches
      and counters, so they are run one after the other.\<close>
  "process_comment_async h m now stakeholder raw_text0 =
     (let raw = (if length raw_text0 > 300 then take 300 raw_text0 else raw_text0)
      in case analyze_sentiment_fast h m raw of
           (Inl e, m1) \<Rightarrow> (Inl e, m1)
         | (Inr (sentiment_label', sentiment_score'), m1) \<Rightarrow>
             (case generate_summary_fast h m1 raw of
                (Inl e, m2) \<Rightarrow> (Inl e, m2)
              | (Inr summary', m2) \<Rightarrow>
                  (Inr \<lparr>timestamp = now, stakeholder_type = stakeholder, raw_text = raw,
                        sentiment_label = sentiment_label',
                        sentiment_score = sentiment_score', summary = summary'\<rparr>, m2)))"

section \<open>The comments table\<close>

record comment_row =
  row_id :: int
  row_timestamp :: string
  row_stakeholder_type :: string
  row_raw_text :: string
  row_sentiment_label :: string
  row_sentiment_score :: real
  row_summary :: string

text \<open>
  The SQLite store: the rows of \<open>comments\<close>, the last value of the \<open>AUTOINCREMENT\<close>
  sequence, and whether the store accepts a write (a locked or unreachable database
  makes \<open>sqlite3\<close> raise).
\<close>

record database =
  rows :: "comment_row list"
  last_rowid :: int
  available :: bool

definition save_comment_to_db_fast ::
  "database \<Rightarrow> comment_data \<Rightarrow> exn + int \<times> database" where
  "save_comment_to_db_fast db data =
     (if \<not> available db then Inl OperationalError
      else let raw = take 300 (raw_text data);
               summ = take 50 (summary data)
           in if length raw > 300 \<or> length summ > 50 then Inl IntegrityError
              else let comment_id = last_rowid db + 1
                   in Inr (comment_id,
                           db\<lparr>rows := rows db @
                                 [\<lparr>row_id = comment_id, row_timestamp = timestamp data,
                                   row_stakeholder_type = stakeholder_type data,
                                   row_raw_text = raw,
                                   row_sentiment_label = sentiment_label data,
                                   row_sentiment_score = sentiment_score data,
                                   row_summary = summ\<rparr>],
                              last_rowid := comment_id\<rparr>))"

definition fallback_models :: ai_models where
  \<comment> \<open>\<open>OptimizedAIModels()\<close> after \<open>_create_fast_fallback_models\<close>: both fallback
      providers, empty caches\<close>
  "fallback_models =
     \<lparr>sentiment_analyzer = (\<lambda>text. Inr (Flat (FastSentimentAnalyzer text))),
      summarizer = (\<lambda>text. Inr (FastSummarizer text)),
      sentiment_cache = [], summary_cache = [],
      sentiment_calls = 0, summary_calls = 0\<rparr>"

definition empty_database :: database where
  \<comment> \<open>the store right after \<open>init_database\<close>\<close>
  "empty_database = \<lparr>rows = [], last_rowid = 0, available = True\<rparr>"

section \<open>Specification-side definitions\<close>

definition heuristic_classifier_spec :: "string \<Rightarrow> string \<times> real" where
  \<comment> \<open>the keyword classifier as the specification words it: split the text on
      whitespace, count the words in each marker set, compare\<close>
  "heuristic_classifier_spec text =
     (let tokens = set (py_split text);
          p = card (tokens \<inter> positive_keywords);
          n = card (tokens \<inter> negative_keywords)
      in (if p > n then ''positive'' else if n > p then ''negative'' else ''neutral'',
          if p = n then 0.6 else min 0.95 (0.7 + 0.1 * \<bar>real p - real n\<bar>)))"

definition in_contract :: "scored \<Rightarrow> bool" where
  \<comment> \<open>an entry of a provider result that keeps the provider contract: its label is sent
      to one of the three standard labels and its score lies in the unit interval\<close>
  "in_contract x =
     ((case map_of label_mapping (label x) of Some l \<Rightarrow> l | None \<Rightarrow> py_lower (label x))
         \<in> {''positive'', ''neutral'', ''negative''}
      \<and> 0 \<le> score x \<and> score x \<le> 1)"

fun result_in_contract :: "sentiment_result \<Rightarrow> bool" where
  "result_in_contract (Flat xs) = list_all in_contract xs"
| "result_in_contract (Nested xss) = list_all (list_all in_contract) xss"

definition cache_in_contract :: "(int \<times> sentiment_result) list \<Rightarrow> bool" where
  "cache_in_contract c = list_all (\<lambda>p. result_in_contract (snd p)) c"


text \<open>
  A sequence of cache operations: \<open>Get\<close> is the first locked block of
  \<open>get_*_cached\<close>, which only reads; \<open>Put\<close> is the second one.
\<close>

datatype 'v cache_op = Get int | Put int 'v

fun cache_step :: "'v cache_op \<Rightarrow> (int \<times> 'v) list \<Rightarrow> (int \<times> 'v) list" where
  "cache_step (Get k) cache = cache"
| "cache_step (Put k v) cache = cache_put k v cache"

definition cache_run :: "'v cache_op list \<Rightarrow> (int \<times> 'v) list \<Rightarrow> (int \<times> 'v) list" where
  "cache_run ops cache = fold cache_step ops cache"

fun puts_of :: "'v cache_op list \<Rightarrow> (int \<times> 'v) list" where
  "puts_of [] = []"
| "puts_of (Get k # ops) = puts_of ops"
| "puts_of (Put k v # ops) = (k, v) # puts_of ops"

definition fill_ops :: "nat cache_op list" where
  \<comment> \<open>1000 distinct keys, a read of the oldest key, then one more key\<close>
  "fill_ops = map (\<lambda>i. Put (int i) i) [0..<1000] @ [Get 0, Put 1000 1000]"

definition first_separator :: "string \<Rightarrow> string option" where
  \<comment> \<open>the first of the three separators, in the order \<open>FastSummarizer\<close> tries them,
      that occurs in the text\<close>
  "first_separator s =
     (if py_contains ''. '' s then Some ''. ''
      else if py_contains ''! '' s then Some ''! ''
      else if py_contains ''? '' s then Some ''? ''
      else None)"

section \<open>The built-in hash of strings\<close>

text \<open>
  \<open>hash(text)\<close> is not code of the repository but of the interpreter. For a \<open>str\<close> of
  code points below 256 CPython (3.11 and later, default build) computes SipHash-1-3
  over the characters, one byte each, keyed by a 128-bit secret that is drawn once per
  process (at random, or from \<open>PYTHONHASHSEED\<close>; seed 0 gives the all-zero secret). The
  64-bit arithmetic is written on integers with the reduction modulo \<open>2 ^ 64\<close> explicit.
\<close>

type_synonym hash_secret = "int \<times> int"
type_synonym sip_state = "int \<times> int \<times> int \<times> int"

definition u64 :: "int \<Rightarrow> int" where
  "u64 x = x mod 18446744073709551616"

definition rotl64 :: "int \<Rightarrow> nat \<Rightarrow> int" where
  "rotl64 x b = u64 (x * 2 ^ b) OR (x div 2 ^ (64 - b))"

fun half_round :: "nat \<Rightarrow> nat \<Rightarrow> sip_state \<Rightarrow> sip_state" where
  "half_round s t (a, b, c, d) =
     (rotl64 (u64 (a + b)) 32, rotl64 b s XOR u64 (a + b), u64 (c + d),
      rotl64 d t XOR u64 (c + d))"

fun swap02 :: "sip_state \<Rightarrow> sip_state" where
  "swap02 (a, b, c, d) = (c, b, a, d)"

definition sip_round :: "sip_state \<Rightarrow> sip_state" where
  "sip_round v = swap02 (half_round 17 21 (swap02 (half_round 13 16 v)))"

fun xor_v0 :: "int \<Rightarrow> sip_state \<Rightarrow> sip_state" where
  "xor_v0 m (v0, v1, v2, v3) = (v0 XOR m, v1, v2, v3)"

fun xor_v2 :: "int \<Rightarrow> sip_state \<Rightarrow> sip_state" where
  "xor_v2 m (v0, v1, v2, v3) = (v0, v1, v2 XOR m, v3)"

fun xor_v3 :: "int \<Rightarrow> sip_state \<Rightarrow> sip_state" where
  "xor_v3 m (v0, v1, v2, v3) = (v0, v1, v2, v3 XOR m)"

fun sip_fold :: "sip_state \<Rightarrow> int" where
  "sip_fold (v0, v1, v2, v3) = (v0 XOR v1) XOR (v2 XOR v3)"

definition le64 :: "string \<Rightarrow> int" where
  "le64 bs = foldr (\<lambda>c acc. of_char c + 256 * acc) bs 0"

definition sip_absorb :: "int \<Rightarrow> sip_state \<Rightarrow> sip_state" where
  "sip_absorb mi v = xor_v0 mi (sip_round (xor_v3 mi v))"

fun sip_compress :: "int \<Rightarrow> sip_state \<Rightarrow> string \<Rightarrow> sip_state" where
  "sip_compress b v (c0 # c1 # c2 # c3 # c4 # c5 # c6 # c7 # rest) =
     sip_compress b (sip_absorb (le64 [c0, c1, c2, c3, c4, c5, c6, c7]) v) rest"
| "sip_compress b v tail = sip_absorb (b OR le64 tail) v"

definition siphash13 :: "int \<Rightarrow> int \<Rightarrow> string \<Rightarrow> int" where
  "siphash13 k0 k1 src =
     sip_fold (sip_round (sip_round (sip_round (xor_v2 0xff
       (sip_compress (u64 (int (length src) * 2 ^ 56))
          (k0 XOR 0x736f6d6570736575, k1 XOR 0x646f72616e646f6d,
           k0 XOR 0x6c7967656e657261, k1 XOR 0x7465646279746573) src)))))"

definition py_hash :: "hash_secret \<Rightarrow> string \<Rightarrow> int" where
  \<comment> \<open>the empty string hashes to 0; the result is read as a signed 64-bit value and
      \<open>-1\<close> is replaced by \<open>-2\<close>\<close>
  "py_hash secret s =
     (if s = [] then 0
      else let t = siphash13 (fst secret) (snd secret) s;
               x = (if t \<ge> 9223372036854775808 then t - 18446744073709551616 else t)
           in if x = - 1 then - 2 else x)"

section \<open>Basic facts\<close>

lemma ellipsis47_length: "length (ellipsis47 s) \<le> 50"
  by (simp add: ellipsis47_def)

lemma py_lower_char_idem: "py_lower_char (py_lower_char c) = py_lower_char c"
proof (cases "(65 \<le> (of_char c :: nat) \<and> (of_char c :: nat) \<le> 90)
              \<or> (192 \<le> (of_char c :: nat) \<and> (of_char c :: nat) \<le> 222
                  \<and> (of_char c :: nat) \<noteq> 215)")
  case True
  then have eq: "py_lower_char c = char_of ((of_char c :: nat) + 32)"
    by (simp add: py_lower_char_def)
  have "(of_char c :: nat) + 32 < 256"
    using True by arith
  then have "(of_char (char_of ((of_char c :: nat) + 32)) :: nat) = of_char c + 32"
    by simp
  then show ?thesis
    using True unfolding eq by (auto simp: py_lower_char_def Let_def)
next
  case False
  then show ?thesis by (auto simp: py_lower_char_def Let_def)
qed

lemma py_lower_idem: "py_lower (py_lower s) = py_lower s"
  by (simp add: py_lower_def py_lower_char_idem)

lemma analyze_sentiment_fast_returns:
  "\<exists>r m'. analyze_sentiment_fast h m text = (Inr r, m')"
proof (cases "get_sentiment_cached h m text")
  case (Pair res m')
  show ?thesis
  proof (cases res)
    case (Inl e)
    with Pair have "analyze_sentiment_fast h m text = (Inr (''neutral'', 0.5), m')"
      by (simp add: analyze_sentiment_fast_def)
    then show ?thesis by blast
  next
    case (Inr results)
    show ?thesis
    proof (cases "best_sentiment results")
      case (Inl e)
      with Pair \<open>res = Inr results\<close>
      have "analyze_sentiment_fast h m text = (Inr (''neutral'', 0.5), m')"
        by (simp add: analyze_sentiment_fast_def)
      then show ?thesis by blast
    next
      case (Inr r)
      with Pair \<open>res = Inr results\<close>
      have "analyze_sentiment_fast h m text = (Inr r, m')"
        by (simp add: analyze_sentiment_fast_def)
      then show ?thesis by blast
    qed
  qed
qed

lemma generate_summary_fast_returns:
  "\<exists>s m'. generate_summary_fast h m text = (Inr s, m') \<and> length s \<le> 50"
  by (auto simp: generate_summary_fast_def ellipsis47_length
           split: prod.splits sum.splits list.splits)

lemma process_comment_async_returns:
  "\<exists>d m'. process_comment_async h m now st text = (Inr d, m')
      \<and> length (summary d) \<le> 50 \<and> length (raw_text d) \<le> 300"
proof -
  let ?raw = "if length text > 300 then take 300 text else text"
  obtain r m1 where a0: "analyze_sentiment_fast h m ?raw = (Inr r, m1)"
    using analyze_sentiment_fast_returns by blast
  obtain l sc where r: "r = (l, sc)" by (cases r)
  note a = a0[unfolded r]
  obtain s m2 where g: "generate_summary_fast h m1 ?raw = (Inr s, m2)"
    and len: "length s \<le> 50"
    using generate_summary_fast_returns by blast
  show ?thesis
    using a g len by (simp add: process_comment_async_def Let_def)
qed

lemma save_comment_bounds:
  "save_comment_to_db_fast db d = Inr (i, db') \<Longrightarrow>
     rows db' \<noteq> [] \<and> length (row_summary (last (rows db'))) \<le> 50
       \<and> length (row_raw_text (last (rows db'))) \<le> 300"
  by (auto simp: save_comment_to_db_fast_def Let_def split: if_splits)

lemma save_comment_succeeds:
  "available db \<Longrightarrow> \<exists>i db'. save_comment_to_db_fast db d = Inr (i, db')"
  by (auto simp: save_comment_to_db_fast_def Let_def split: if_splits)

lemma keywords_disjoint: "positive_keywords \<inter> negative_keywords = {}"
  by (simp add: positive_keywords_def negative_keywords_def)

lemma py_max_score_mem: "py_max_score xs = Inr b \<Longrightarrow> b \<in> set xs"
proof (cases xs)
  case Nil
  assume "py_max_score xs = Inr b"
  with Nil show ?thesis by simp
next
  case (Cons x ys)
  assume a: "py_max_score xs = Inr b"
  have "foldl (\<lambda>best y. if score y > score best then y else best) z zs \<in> set (z # zs)"
    for z :: scored and zs
    by (induction zs arbitrary: z) auto
  with a Cons show ?thesis by auto
qed

lemma best_sentiment_in_contract:
  assumes "result_in_contract r" and "best_sentiment r = Inr (l, sc)"
  shows "l \<in> {''positive'', ''neutral'', ''negative''} \<and> 0 \<le> sc \<and> sc \<le> 1"
proof -
  from assms(2) obtain xs b where b: "py_max_score xs = Inr b"
    and xs: "(\<exists>x ys. r = Flat xs \<and> xs = x # ys) \<or> (\<exists>rs. r = Nested (xs # rs))"
    and l: "l = (case map_of label_mapping (label b) of
                   Some l \<Rightarrow> l | None \<Rightarrow> py_lower (label b))"
    and sc: "sc = score b"
    by (auto simp: best_sentiment_def split: sentiment_result.splits list.splits sum.splits)
  from xs assms(1) have "list_all in_contract xs" by auto
  with py_max_score_mem[OF b] have "in_contract b" by (simp add: list_all_iff)
  then show ?thesis unfolding l sc in_contract_def by simp
qed

lemma dict_setitem_all: "list_all P c \<Longrightarrow> P (k, v) \<Longrightarrow> list_all P (dict_setitem k v c)"
  by (induction c) auto

lemma dict_delitem_all: "list_all P c \<Longrightarrow> list_all P (dict_delitem k c)"
  by (simp add: dict_delitem_def list_all_iff)

lemma fold_delitem_all: "list_all P c \<Longrightarrow> list_all P (fold dict_delitem ks c)"
  by (induction ks arbitrary: c) (simp_all add: dict_delitem_all)

lemma cache_put_all: "list_all P c \<Longrightarrow> P (k, v) \<Longrightarrow> list_all P (cache_put k v c)"
  by (simp add: cache_put_def Let_def dict_setitem_all fold_delitem_all)

lemma map_of_all: "list_all P c \<Longrightarrow> map_of c k = Some v \<Longrightarrow> P (k, v)"
  by (induction c) (auto split: if_splits)

lemma get_sentiment_cached_contract:
  assumes "\<forall>t r. sentiment_analyzer m t = Inr r \<longrightarrow> result_in_contract r"
    and "cache_in_contract (sentiment_cache m)"
    and "get_sentiment_cached h m text = (res, m')"
  shows "cache_in_contract (sentiment_cache m') \<and> sentiment_analyzer m' = sentiment_analyzer m
         \<and> (\<forall>r. res = Inr r \<longrightarrow> result_in_contract r)"
  using assms
  by (auto simp: get_sentiment_cached_def cache_get_def cache_in_contract_def Let_def
        cache_put_all dest: map_of_all split: option.splits sum.splits)

lemma confidence_bounds:
  "0 \<le> min (0.95::real) (0.7 + real k * 0.1) \<and> min (0.95::real) (0.7 + real k * 0.1) \<le> 1"
  by (simp add: min_le_iff_disj)

lemma FastSentimentAnalyzer_in_contract:
  "result_in_contract (Flat (FastSentimentAnalyzer t))"
  using confidence_bounds
  by (simp add: FastSentimentAnalyzer_def Let_def in_contract_def label_mapping_def
           del: of_nat_diff)






lemma dict_setitem_fresh: "k \<notin> fst ` set c \<Longrightarrow> dict_setitem k v c = c @ [(k, v)]"
  by (induction c) auto

lemma dict_setitem_keys:
  "map fst (dict_setitem k v c) = (if k \<in> fst ` set c then map fst c else map fst c @ [k])"
  by (induction c) auto

lemma fold_dict_delitem: "fold dict_delitem ks c = filter (\<lambda>p. fst p \<notin> set ks) c"
  by (induction ks arbitrary: c) (auto simp: dict_delitem_def intro: filter_cong)

lemma filter_take_keys:
  "distinct (map fst c) \<Longrightarrow> filter (\<lambda>p. fst p \<notin> set (take n (map fst c))) c = drop n c"
proof (induction c arbitrary: n)
  case Nil
  then show ?case by simp
next
  case (Cons p c)
  show ?case
  proof (cases n)
    case 0
    then show ?thesis by simp
  next
    case (Suc n')
    have "filter (\<lambda>q. fst q \<noteq> fst p \<and> fst q \<notin> set (take n' (map fst c))) c
            = filter (\<lambda>q. fst q \<notin> set (take n' (map fst c))) c"
      using Cons.prems by (intro filter_cong) (auto simp: rev_image_eqI)
    moreover have "filter (\<lambda>q. fst q \<notin> set (take n' (map fst c))) c = drop n' c"
      using Cons.prems by (intro Cons.IH) simp
    ultimately show ?thesis using Suc by simp
  qed
qed


lemma cache_put_distinct:
  assumes "distinct (map fst c)"
  shows "cache_put k v c =
           (let c1 = dict_setitem k v c in if length c1 > 1000 then drop 100 c1 else c1)"
proof -
  have "distinct (map fst (dict_setitem k v c))"
    using assms by (auto simp: dict_setitem_keys)
  then show ?thesis
    by (simp add: cache_put_def Let_def fold_dict_delitem filter_take_keys)
qed

lemma distinct_fst_drop: "distinct (map fst xs) \<Longrightarrow> distinct (map fst (drop n xs))"
  using distinct_drop[of "map fst xs" n] by (simp only: drop_map)

lemma cache_put_invariant:
  assumes "distinct (map fst c)" and "length c \<le> 1000"
  shows "distinct (map fst (cache_put k v c)) \<and> length (cache_put k v c) \<le> 1000"
proof -
  have d: "distinct (map fst (dict_setitem k v c))"
    using assms by (auto simp: dict_setitem_keys)
  have l: "length (dict_setitem k v c) \<le> 1001"
    using assms(2) arg_cong[OF dict_setitem_keys[of k v c], of length] by (simp split: if_splits)
  show ?thesis
    using d l distinct_fst_drop[OF d, of 100]
    by (auto simp: cache_put_distinct[OF assms(1)] Let_def)
qed

lemma cache_run_invariant:
  assumes "distinct (map fst c)" and "length c \<le> 1000"
  shows "distinct (map fst (cache_run ops c)) \<and> length (cache_run ops c) \<le> 1000"
  using assms
proof (induction ops arbitrary: c)
  case Nil
  then show ?case by (simp add: cache_run_def)
next
  case (Cons op ops)
  have "distinct (map fst (cache_step op c)) \<and> length (cache_step op c) \<le> 1000"
    using Cons.prems by (cases op) (auto simp: cache_put_invariant[OF Cons.prems])
  with Cons.IH[of "cache_step op c"] show ?case by (simp add: cache_run_def)
qed

lemma cache_run_below_capacity:
  assumes "distinct (map fst (c @ puts_of ops))" and "length (c @ puts_of ops) \<le> 1000"
  shows "cache_run ops c = c @ puts_of ops"
  using assms
proof (induction ops arbitrary: c rule: puts_of.induct)
  case 1
  then show ?case by (simp add: cache_run_def)
next
  case (2 k ops)
  then show ?case by (simp add: cache_run_def)
next
  case (3 k v ops)
  have fresh: "k \<notin> fst ` set c" using "3.prems"(1) by auto
  have dc: "distinct (map fst c)" using "3.prems"(1) by simp
  have "cache_put k v c = c @ [(k, v)]"
    using "3.prems"(2) by (simp add: cache_put_distinct[OF dc] dict_setitem_fresh[OF fresh])
  moreover have "cache_run ops (c @ [(k, v)]) = (c @ [(k, v)]) @ puts_of ops"
    using "3.prems" by (intro "3.IH") auto
  ultimately show ?case by (simp add: cache_run_def)
qed

lemma cache_run_append: "cache_run (ops1 @ ops2) c = cache_run ops2 (cache_run ops1 c)"
  by (simp add: cache_run_def)


lemma cache_run_at_capacity:
  assumes "distinct (map fst (c @ puts_of ops))" and "length (c @ puts_of ops) = 1001"
    and "length c \<le> 1000"
  shows "cache_run ops c = drop 100 (c @ puts_of ops)"
  using assms
proof (induction ops arbitrary: c rule: puts_of.induct)
  case 1
  then show ?case by simp
next
  case (2 k ops)
  then show ?case by (simp add: cache_run_def)
next
  case (3 k v ops)
  have fresh: "k \<notin> fst ` set c" using "3.prems"(1) by auto
  have dc: "distinct (map fst c)" using "3.prems"(1) by simp
  show ?case
  proof (cases "length c = 1000")
    case True
    then have e: "puts_of ops = []" using "3.prems"(2) by simp
    have put: "cache_put k v c = drop 100 (c @ [(k, v)])"
      using True by (simp add: cache_put_distinct[OF dc] dict_setitem_fresh[OF fresh])
    have "distinct (map fst (c @ [(k, v)]))"
      using "3.prems"(1) e by simp
    then have "distinct (map fst (drop 100 (c @ [(k, v)])))"
      by (rule distinct_fst_drop)
    then have "cache_run ops (drop 100 (c @ [(k, v)])) = drop 100 (c @ [(k, v)]) @ puts_of ops"
      using True e by (intro cache_run_below_capacity) simp_all
    with put e show ?thesis by (simp add: cache_run_def)
  next
    case False
    then have lt: "length c < 1000" using "3.prems"(3) by simp
    have put: "cache_put k v c = c @ [(k, v)]"
      using lt by (simp add: cache_put_distinct[OF dc] dict_setitem_fresh[OF fresh])
    have "cache_run ops (c @ [(k, v)]) = drop 100 ((c @ [(k, v)]) @ puts_of ops)"
      using "3.prems" lt by (intro "3.IH") auto
    with put show ?thesis by (simp add: cache_run_def)
  qed
qed

lemma drop_keys_evicted:
  assumes "distinct (map fst kvs)" and "i < n" and "i < length kvs"
  shows "map_of (drop n kvs) (fst (kvs ! i)) = None"
proof -
  have "distinct (map fst (take n kvs @ drop n kvs))"
    using assms(1) by simp
  then have "fst ` set (take n kvs) \<inter> fst ` set (drop n kvs) = {}"
    by (simp only: map_append distinct_append set_map)
  moreover have "take n kvs ! i \<in> set (take n kvs)"
    using assms(2,3) by (intro nth_mem) simp
  then have "fst (kvs ! i) \<in> fst ` set (take n kvs)"
    using assms(2) by simp
  ultimately have "fst (kvs ! i) \<notin> fst ` set (drop n kvs)" by blast
  then show ?thesis by (simp add: map_of_eq_None_iff)
qed

lemma drop_keys_kept:
  assumes "distinct (map fst kvs)" and "n \<le> i" and "i < length kvs"
  shows "map_of (drop n kvs) (fst (kvs ! i)) = Some (snd (kvs ! i))"
proof -
  have d: "distinct (map fst (drop n kvs))"
    using assms(1) by (rule distinct_fst_drop)
  have "drop n kvs ! (i - n) \<in> set (drop n kvs)"
    using assms(2,3) by (intro nth_mem) simp
  then have "kvs ! i \<in> set (drop n kvs)"
    using assms(2,3) by simp
  then have "(fst (kvs ! i), snd (kvs ! i)) \<in> set (drop n kvs)" by simp
  with d show ?thesis by simp
qed

lemma map_of_filter_key:
  "k \<notin> S \<Longrightarrow> map_of (filter (\<lambda>p. fst p \<notin> S) xs) k = map_of xs k"
  by (induction xs) auto

lemma cache_get_after_put:
  assumes "cache_get k c = None"
  shows "cache_get k (cache_put k v c) = Some v"
proof -
  have fresh: "k \<notin> fst ` set c"
    using assms by (simp add: cache_get_def map_of_eq_None_iff)
  have s: "dict_setitem k v c = c @ [(k, v)]"
    by (rule dict_setitem_fresh[OF fresh])
  have app: "map_of (c @ [(k, v)]) k = Some v"
    using assms by (simp add: cache_get_def map_add_def)
  show ?thesis
  proof (cases "length (c @ [(k, v)]) > 1000")
    case False
    then show ?thesis using app by (simp add: cache_put_def s cache_get_def)
  next
    case True
    then have tk: "take 100 (map fst (c @ [(k, v)])) = take 100 (map fst c)" by simp
    have notin: "k \<notin> set (take 100 (map fst c))"
      using fresh by (auto dest: in_set_takeD)
    have "cache_put k v c
            = filter (\<lambda>p. fst p \<notin> set (take 100 (map fst c))) (c @ [(k, v)])"
      using True by (simp only: cache_put_def s Let_def fold_dict_delitem tk if_True)
    then have "cache_get k (cache_put k v c) = map_of (c @ [(k, v)]) k"
      by (simp only: cache_get_def map_of_filter_key[OF notin])
    with app show ?thesis by simp
  qed
qed


lemma analyze_sentiment_fast_miss:
  assumes "cache_get (h text) (sentiment_cache m) = None"
    and "sentiment_analyzer m text = Inr r"
  shows "analyze_sentiment_fast h m text =
           (Inr (case best_sentiment r of Inl e \<Rightarrow> (''neutral'', 0.5) | Inr x \<Rightarrow> x),
            m\<lparr>sentiment_cache := cache_put (h text) r (sentiment_cache m),
              sentiment_calls := Suc (sentiment_calls m)\<rparr>)"
  using assms
  by (simp add: analyze_sentiment_fast_def get_sentiment_cached_def split: sum.splits)

lemma analyze_sentiment_fast_hit:
  assumes "cache_get (h text) (sentiment_cache m) = Some r"
  shows "analyze_sentiment_fast h m text =
           (Inr (case best_sentiment r of Inl e \<Rightarrow> (''neutral'', 0.5) | Inr x \<Rightarrow> x), m)"
  using assms
  by (simp add: analyze_sentiment_fast_def get_sentiment_cached_def split: sum.splits)

lemma generate_summary_fast_miss:
  assumes "3 \<le> length (py_split text)"
    and "cache_get (h text) (summary_cache m) = None"
    and "summarizer m text = Inr s"
  shows "generate_summary_fast h m text =
           (Inr (case s of
                   [] \<Rightarrow> if length text > 47 then ellipsis47 text else text
                 | x # _ \<Rightarrow> if length x > 50 then ellipsis47 x else x),
            m\<lparr>summary_cache := cache_put (h text) s (summary_cache m),
              summary_calls := Suc (summary_calls m)\<rparr>)"
  using assms
  by (simp add: generate_summary_fast_def get_summary_cached_def split: list.splits)

lemma generate_summary_fast_hit:
  assumes "3 \<le> length (py_split text)"
    and "cache_get (h text) (summary_cache m) = Some s"
  shows "generate_summary_fast h m text =
           (Inr (case s of
                   [] \<Rightarrow> if length text > 47 then ellipsis47 text else text
                 | x # _ \<Rightarrow> if length x > 50 then ellipsis47 x else x), m)"
  using assms
  by (simp add: generate_summary_fast_def get_summary_cached_def split: list.splits)

lemma generate_summary_fast_short:
  assumes "length (py_split text) < 3"
  shows "generate_summary_fast h m text =
           (Inr (if length text \<le> 50 then take 50 text else ellipsis47 text), m)"
  using assms by (simp add: generate_summary_fast_def)

lemma last_dropWhile_eq: "dropWhile P xs \<noteq> [] \<Longrightarrow> last (dropWhile P xs) = last xs"
  by (induction xs) (auto split: if_splits)

lemma py_strip_last:
  assumes "py_strip t \<noteq> []"
  shows "\<not> py_isspace (last (py_strip t))"
proof -
  let ?u = "dropWhile py_isspace (rev (dropWhile py_isspace t))"
  have u: "?u \<noteq> []" using assms by (simp add: py_strip_def)
  then have "\<not> py_isspace (hd ?u)" by (rule hd_dropWhile)
  moreover have "last (py_strip t) = hd ?u"
    using u by (simp add: py_strip_def last_rev)
  ultimately show ?thesis by simp
qed

lemma py_strip_nonempty:
  assumes "x \<noteq> []" and "\<not> py_isspace (last x)"
  shows "py_strip x \<noteq> []"
proof -
  have "last x \<in> set x" using assms(1) by simp
  with assms(2) have d: "dropWhile py_isspace x \<noteq> []"
    by auto
  then have "last (dropWhile py_isspace x) = last x" by (rule last_dropWhile_eq)
  then have "hd (rev (dropWhile py_isspace x)) = last x"
    using d by (simp add: hd_rev)
  then have "dropWhile py_isspace (rev (dropWhile py_isspace x)) = rev (dropWhile py_isspace x)"
    using d assms(2) by (cases "rev (dropWhile py_isspace x)") auto
  then show ?thesis using d by (simp add: py_strip_def)
qed

lemma split_sep_last:
  assumes "s \<noteq> []" and "\<not> py_isspace (last s)" and "py_isspace b"
  shows "split_sep a b cur s \<noteq> [] \<and> last (split_sep a b cur s) \<noteq> []
         \<and> last (last (split_sep a b cur s)) = last s"
  using assms
proof (induction a b cur s rule: split_sep.induct)
  case (1 a b cur x y rest)
  show ?case
  proof (cases "x = a \<and> y = b")
    case True
    then have ne: "rest \<noteq> []" using "1.prems" by auto
    have eq: "split_sep a b cur (x # y # rest) = cur # split_sep a b [] rest"
      using True by simp
    have "split_sep a b [] rest \<noteq> [] \<and> last (split_sep a b [] rest) \<noteq> []
         \<and> last (last (split_sep a b [] rest)) = last rest"
      using True ne "1.prems" by (intro "1.IH"(1)) simp_all
    then show ?thesis using ne unfolding eq by simp
  next
    case False
    have eq: "split_sep a b cur (x # y # rest) = split_sep a b (cur @ [x]) (y # rest)"
      using False by auto
    have "split_sep a b (cur @ [x]) (y # rest) \<noteq> []
         \<and> last (split_sep a b (cur @ [x]) (y # rest)) \<noteq> []
         \<and> last (last (split_sep a b (cur @ [x]) (y # rest))) = last (y # rest)"
      using False "1.prems" by (intro "1.IH"(2)) simp_all
    then show ?thesis unfolding eq by simp
  qed
next
  case (2 a b cur x)
  then show ?case by simp
next
  case (3 a b cur)
  then show ?case by simp
qed

lemma segments_nonempty:
  assumes "s \<noteq> []" and "\<not> py_isspace (last s)" and "py_isspace b"
  shows "filter (\<lambda>x. x \<noteq> []) (map py_strip (split_sep a b [] s)) \<noteq> []"
proof -
  from split_sep_last[OF assms, of a "[]"]
  have ne: "split_sep a b [] s \<noteq> []" and l: "last (split_sep a b [] s) \<noteq> []"
    and ll: "last (last (split_sep a b [] s)) = last s" by simp_all
  have "py_strip (last (split_sep a b [] s)) \<noteq> []"
    using l ll assms(2) by (intro py_strip_nonempty) simp_all
  moreover have "last (split_sep a b [] s) \<in> set (split_sep a b [] s)"
    using ne by simp
  ultimately show ?thesis by (auto simp: filter_empty_conv)
qed

lemma space_isspace: "py_isspace CHR '' ''"
  by (simp add: py_isspace_def)


lemma first_sentences_separator:
  "first_sentences s =
     (case first_separator s of
        None \<Rightarrow> []
      | Some d \<Rightarrow> filter (\<lambda>x. x \<noteq> []) (map py_strip (py_split_on d s)))"
  by (simp add: first_sentences_def first_separator_def Let_def)

lemma first_separator_segments:
  assumes "first_separator s = Some d" and "s \<noteq> []" and "\<not> py_isspace (last s)"
  shows "filter (\<lambda>x. x \<noteq> []) (map py_strip (py_split_on d s)) \<noteq> []"
proof -
  from assms(1) have "d = ''. '' \<or> d = ''! '' \<or> d = ''? ''"
    by (auto simp: first_separator_def split: if_splits)
  then show ?thesis
    using segments_nonempty[OF assms(2,3) space_isspace]
    by (auto simp: py_split_on_def)
qed

section \<open>Length bounds of the persisted record\<close>

text \<open>
  C1. For every text of 1 to 300 characters, every pair of providers (returning, returning
  garbage, or raising) and every cache content, processing the comment returns a record
  whose summary has at most 50 and whose raw text has at most 300 characters, and saving
  it to a writable store succeeds with a row within the same bounds. The write helper
  truncates on its own account: whatever record it is given, the row it writes is within
  the bounds.
\<close>

theorem processed_comment_length_bounds:
  assumes "1 \<le> length T" and "length T \<le> 300" and "available db"
  shows "\<exists>data m' cid db'.
           process_comment_async h m now st T = (Inr data, m')
         \<and> length (summary data) \<le> 50 \<and> length (raw_text data) \<le> 300
         \<and> raw_text data = T
         \<and> save_comment_to_db_fast db data = Inr (cid, db')
         \<and> row_summary (last (rows db')) = summary data
         \<and> row_raw_text (last (rows db')) = raw_text data
         \<and> (\<forall>d. case save_comment_to_db_fast db d of
                    Inl e \<Rightarrow> True
                  | Inr (i, db2) \<Rightarrow> length (row_summary (last (rows db2))) \<le> 50
                                  \<and> length (row_raw_text (last (rows db2))) \<le> 300)"
proof -
  obtain data m' where p: "process_comment_async h m now st T = (Inr data, m')"
    and b: "length (summary data) \<le> 50" "length (raw_text data) \<le> 300"
    using process_comment_async_returns by blast
  have raw: "raw_text data = T"
    using p assms(2)
    by (auto simp: process_comment_async_def Let_def split: prod.splits sum.splits)
  obtain cid db' where s: "save_comment_to_db_fast db data = Inr (cid, db')"
    using save_comment_succeeds[OF assms(3)] by blast
  have rows: "row_summary (last (rows db')) = summary data"
             "row_raw_text (last (rows db')) = raw_text data"
    using s b by (auto simp: save_comment_to_db_fast_def Let_def split: if_splits)
  have layer2: "\<forall>d. case save_comment_to_db_fast db d of
                    Inl e \<Rightarrow> True
                  | Inr (i, db2) \<Rightarrow> length (row_summary (last (rows db2))) \<le> 50
                                  \<and> length (row_raw_text (last (rows db2))) \<le> 300"
    using save_comment_bounds by (auto split: sum.splits)
  show ?thesis
    using p b raw s rows layer2 by blast
qed

theorem processed_comment_length_bounds_witness:
  "1 \<le> length ''I love this policy, it is excellent and will help everyone''
   \<and> length ''I love this policy, it is excellent and will help everyone'' \<le> 300
   \<and> available empty_database
   \<and> (\<exists>data m' cid db'.
         process_comment_async (\<lambda>s. int (length s)) fallback_models
           ''2025-01-01 00:00:00'' ''citizen''
           ''I love this policy, it is excellent and will help everyone'' = (Inr data, m')
       \<and> length (summary data) \<le> 50 \<and> length (raw_text data) \<le> 300
       \<and> save_comment_to_db_fast empty_database data = Inr (cid, db'))"
proof -
  have a: "available empty_database" by (simp add: empty_database_def)
  have l1: "1 \<le> length ''I love this policy, it is excellent and will help everyone''"
    by simp
  have l2: "length ''I love this policy, it is excellent and will help everyone'' \<le> 300"
    by simp
  from processed_comment_length_bounds[OF l1 l2 a,
         of "\<lambda>s. int (length s)" fallback_models "''2025-01-01 00:00:00''" "''citizen''"]
  show ?thesis using a l1 l2 by blast
qed

section \<open>Case-insensitivity of the keyword classifier\<close>

text \<open>
  C10. The heuristic keyword classifier is case-insensitive: classifying a text and
  classifying its lower-cased form give the same label and the same confidence, since the
  classifier lower-cases the text before splitting it into words.
\<close>

theorem classifier_case_insensitive:
  "FastSentimentAnalyzer (py_lower t) = FastSentimentAnalyzer t"
  by (simp add: FastSentimentAnalyzer_def py_lower_idem)

theorem classifier_case_insensitive_witness:
  "FastSentimentAnalyzer (py_lower ''GOOD Idea'') = FastSentimentAnalyzer ''GOOD Idea''
   \<and> FastSentimentAnalyzer ''GOOD Idea'' = [\<lparr>label = ''POSITIVE'', score = 0.8\<rparr>]"
proof -
  have "FastSentimentAnalyzer ''GOOD Idea'' = [\<lparr>label = ''POSITIVE'', score = 0.8\<rparr>]"
    by code_simp
  then show ?thesis
    using classifier_case_insensitive[of "''GOOD Idea''"] by simp
qed

section \<open>The keyword classifier against its specification\<close>

text \<open>
  C6, as stated, fails: the specification splits the input text itself, while
  \<open>FastSentimentAnalyzer\<close> lower-cases the text first. On the one-word text \<open>GOOD\<close> the
  code answers positive with confidence 0.8, the specified computation neutral with 0.6.
\<close>

theorem classifier_uppercase_counterexample:
  "best_sentiment (Flat (FastSentimentAnalyzer ''GOOD'')) = Inr (''positive'', 0.8)
   \<and> heuristic_classifier_spec ''GOOD'' = (''neutral'', 0.6)"
  by code_simp

text \<open>
  C6, amended. For every text, the classifier computes the specified result on the
  lower-cased text: with p and n the numbers of distinct whitespace-separated words of
  the lower-cased text in the positive and negative marker sets, the label is positive
  if p > n, negative if n > p and neutral on a tie, and the confidence is
  min(0.95, 0.7 + 0.1 * |p - n|) off a tie and 0.6 on a tie. The two marker sets are
  disjoint.
\<close>

theorem classifier_computes_spec_on_lowercase:
  "best_sentiment (Flat (FastSentimentAnalyzer t))
     = Inr (heuristic_classifier_spec (py_lower t))
   \<and> positive_keywords \<inter> negative_keywords = {}"
  by (simp add: FastSentimentAnalyzer_def heuristic_classifier_spec_def best_sentiment_def
        Let_def label_mapping_def keywords_disjoint)

theorem classifier_computes_spec_on_lowercase_witness:
  "best_sentiment (Flat (FastSentimentAnalyzer ''This is BAD and awful but good''))
     = Inr (heuristic_classifier_spec (py_lower ''This is BAD and awful but good''))
   \<and> heuristic_classifier_spec (py_lower ''This is BAD and awful but good'')
     = (''negative'', 0.8)"
proof -
  have "heuristic_classifier_spec (py_lower ''This is BAD and awful but good'')
          = (''negative'', 0.8)"
    by code_simp
  then show ?thesis
    using classifier_computes_spec_on_lowercase[of "''This is BAD and awful but good''"]
    by simp
qed

section \<open>The short-text rule\<close>

text \<open>
  C8. For every text with fewer than three whitespace-separated words, summarisation is
  skipped: the summary is the text itself when it has at most 50 characters and its
  first 47 characters followed by an ellipsis otherwise, so at most 50 characters long.
  The result is the same for every hash function, provider and cache content, and the
  state (both caches, both invocation counters) is returned unchanged. In particular
  the two-word text \<open>Good idea.\<close> is its own summary.
\<close>

theorem short_text_skips_summarization:
  assumes "length (py_split text) < 3"
  shows "generate_summary_fast h m text
           = (Inr (if length text \<le> 50 then text else take 47 text @ ''...''), m)
         \<and> length (if length text \<le> 50 then text else take 47 text @ ''...'') \<le> 50"
  using assms by (simp add: generate_summary_fast_def ellipsis47_def)

theorem short_text_skips_summarization_witness:
  "length (py_split ''Good idea.'') < 3
   \<and> generate_summary_fast (\<lambda>s. int (length s)) fallback_models ''Good idea.''
       = (Inr ''Good idea.'', fallback_models)"
proof -
  have w: "length (py_split ''Good idea.'') < 3" by code_simp
  from short_text_skips_summarization[OF w, of "\<lambda>s. int (length s)" fallback_models]
  show ?thesis using w by simp
qed

section \<open>Validity of the sentiment artifact\<close>

text \<open>
  C9, as stated, fails: \<open>analyze_sentiment_fast\<close> passes the label (lower-cased when it
  is not in the label mapping) and the score of the best entry through unchanged. A
  provider answering the single entry \<open>MIXED\<close> with score 1.5 yields the artifact
  (mixed, 1.5).
\<close>

theorem sentiment_artifact_counterexample:
  "fst (analyze_sentiment_fast (\<lambda>s. int (length s))
          (fallback_models\<lparr>sentiment_analyzer :=
              (\<lambda>text. Inr (Flat [\<lparr>label = ''MIXED'', score = 3 / 2\<rparr>]))\<rparr>)
          ''ok'')
     = Inr (''mixed'', 3 / 2)
   \<and> ''mixed'' \<notin> {''positive'', ''neutral'', ''negative''} \<and> \<not> (3 / 2 \<le> (1::real))"
  by code_simp

text \<open>
  C9, amended. If every result the sentiment provider returns, and every cached result,
  keeps the provider contract (each entry's label is sent by the label mapping to
  positive, neutral or negative, and each score lies between 0 and 1), then for every
  text the sentiment artifact has a label among positive, neutral, negative and a score
  between 0 and 1; the cache keeps the contract afterwards. A provider that raises or
  returns an empty list is covered: the artifact is then (neutral, 0.5). The fallback
  keyword classifier keeps the contract on every text.
\<close>

theorem sentiment_artifact_valid_in_contract:
  assumes prov: "\<forall>t r. sentiment_analyzer m t = Inr r \<longrightarrow> result_in_contract r"
    and cache: "cache_in_contract (sentiment_cache m)"
  shows "\<exists>l sc m'. analyze_sentiment_fast h m text = (Inr (l, sc), m')
           \<and> l \<in> {''positive'', ''neutral'', ''negative''} \<and> 0 \<le> sc \<and> sc \<le> 1
           \<and> cache_in_contract (sentiment_cache m')
           \<and> sentiment_analyzer m' = sentiment_analyzer m"
proof (cases "get_sentiment_cached h m text")
  case (Pair res m')
  note inv = get_sentiment_cached_contract[OF prov cache Pair]
  show ?thesis
  proof (cases res)
    case (Inl e)
    with Pair have "analyze_sentiment_fast h m text = (Inr (''neutral'', 0.5), m')"
      by (simp add: analyze_sentiment_fast_def)
    with inv show ?thesis
      by (intro exI[of _ "''neutral''"] exI[of _ "0.5"] exI[of _ m']) simp
  next
    case (Inr results)
    with inv have rc: "result_in_contract results" by simp
    show ?thesis
    proof (cases "best_sentiment results")
      case (Inl e)
      with Pair \<open>res = Inr results\<close>
      have "analyze_sentiment_fast h m text = (Inr (''neutral'', 0.5), m')"
        by (simp add: analyze_sentiment_fast_def)
      with inv show ?thesis
        by (intro exI[of _ "''neutral''"] exI[of _ "0.5"] exI[of _ m']) simp
    next
      case (Inr r)
      obtain l sc where r: "r = (l, sc)" by (cases r)
      from Pair \<open>res = Inr results\<close> Inr r
      have "analyze_sentiment_fast h m text = (Inr (l, sc), m')"
        by (simp add: analyze_sentiment_fast_def)
      moreover from best_sentiment_in_contract[OF rc Inr[unfolded r]]
      have "l \<in> {''positive'', ''neutral'', ''negative''} \<and> 0 \<le> sc \<and> sc \<le> 1" .
      ultimately show ?thesis using inv
        by (intro exI[of _ l] exI[of _ sc] exI[of _ m']) simp
    qed
  qed
qed

theorem sentiment_artifact_valid_in_contract_witness:
  "cache_in_contract (sentiment_cache fallback_models)
   \<and> (\<exists>l sc m'. analyze_sentiment_fast (\<lambda>s. int (length s)) fallback_models
          ''I love this policy'' = (Inr (l, sc), m')
        \<and> l \<in> {''positive'', ''neutral'', ''negative''} \<and> 0 \<le> sc \<and> sc \<le> 1)"
proof -
  have prov: "\<forall>t r. sentiment_analyzer fallback_models t = Inr r
                \<longrightarrow> result_in_contract r"
    using FastSentimentAnalyzer_in_contract by (auto simp: fallback_models_def)
  have cache: "cache_in_contract (sentiment_cache fallback_models)"
    by (simp add: fallback_models_def cache_in_contract_def)
  show ?thesis
    using sentiment_artifact_valid_in_contract[of fallback_models "\<lambda>s. int (length s)"
            "''I love this policy''"] prov cache
    by blast
qed

section \<open>Analyzer failures are absorbed\<close>




section \<open>Capacity and eviction of the result caches\<close>

text \<open>
  C4. Starting from an empty cache (capacity 1000, eviction batch 100), after any
  sequence of reads and puts the cache holds at most 1000 entries. A sequence whose
  puts carry 1001 distinct keys, with reads interleaved anywhere, ends with the cache
  holding exactly the puts without the 100 oldest-inserted ones: 901 entries, the 100
  earliest-inserted keys are not retrievable and every later key returns the value stored
  for it. Reads never change the order: a cache hit in \<open>get_sentiment_cached\<close> or
  \<open>get_summary_cached\<close> returns the state as it was.
\<close>

theorem cache_capacity_and_fifo_eviction:
  assumes d: "distinct (map fst (puts_of ops))" and l: "length (puts_of ops) = 1001"
  shows "length (cache_run ops' []) \<le> 1000
       \<and> cache_run ops [] = drop 100 (puts_of ops)
       \<and> length (cache_run ops []) = 901
       \<and> (\<forall>i<100. cache_get (fst (puts_of ops ! i)) (cache_run ops []) = None)
       \<and> (\<forall>i. 100 \<le> i \<and> i < 1001 \<longrightarrow>
             cache_get (fst (puts_of ops ! i)) (cache_run ops [])
               = Some (snd (puts_of ops ! i)))
       \<and> (cache_get (h t) (sentiment_cache m) \<noteq> None
            \<longrightarrow> snd (get_sentiment_cached h m t) = m)
       \<and> (cache_get (h t) (summary_cache m) \<noteq> None
            \<longrightarrow> snd (get_summary_cached h m t) = m)"
proof -
  have a: "length (cache_run ops' []) \<le> 1000"
    using cache_run_invariant[of "[]" ops'] by simp
  have b: "cache_run ops [] = drop 100 (puts_of ops)"
    using cache_run_at_capacity[of "[]" ops] d l by simp
  have c: "length (cache_run ops []) = 901"
    using b l by simp
  have e: "\<forall>i<100. cache_get (fst (puts_of ops ! i)) (cache_run ops []) = None"
    using drop_keys_evicted[OF d] l by (simp add: b cache_get_def)
  have f: "\<forall>i. 100 \<le> i \<and> i < 1001 \<longrightarrow>
             cache_get (fst (puts_of ops ! i)) (cache_run ops [])
               = Some (snd (puts_of ops ! i))"
    using drop_keys_kept[OF d] l by (simp add: b cache_get_def)
  have g1: "cache_get (h t) (sentiment_cache m) \<noteq> None
            \<longrightarrow> snd (get_sentiment_cached h m t) = m"
    by (auto simp: get_sentiment_cached_def)
  have g2: "cache_get (h t) (summary_cache m) \<noteq> None
            \<longrightarrow> snd (get_summary_cached h m t) = m"
    by (auto simp: get_summary_cached_def)
  from a b c e f g1 g2 show ?thesis by (intro conjI)
qed

theorem cache_capacity_and_fifo_eviction_witness:
  "distinct (map fst (puts_of fill_ops)) \<and> length (puts_of fill_ops) = 1001
   \<and> length (cache_run fill_ops []) = 901
   \<and> cache_get 0 (cache_run fill_ops []) = None
   \<and> cache_get 99 (cache_run fill_ops []) = None
   \<and> cache_get 100 (cache_run fill_ops []) = Some 100
   \<and> cache_get 1000 (cache_run fill_ops []) = Some 1000"
proof -
  have pm: "puts_of (map (\<lambda>i. Put (int i) i) xs @ ys) = map (\<lambda>i. (int i, i)) xs @ puts_of ys"
    for xs :: "nat list" and ys :: "nat cache_op list"
    by (induction xs) simp_all
  have p: "puts_of fill_ops = map (\<lambda>i. (int i, i)) [0..<1001]"
  proof -
    have "[0..<1001] = [0..<1000] @ [1000]"
      using upt_Suc_append[of 0 1000] by simp
    then show ?thesis by (simp add: fill_ops_def pm)
  qed
  have d: "distinct (map fst (puts_of fill_ops))"
    by (simp add: p comp_def distinct_map inj_on_def)
  have l: "length (puts_of fill_ops) = 1001" by (simp add: p)
  have n: "puts_of fill_ops ! i = (int i, i)" if "i < 1001" for i
    using that by (simp add: p del: upt_Suc)
  note t = cache_capacity_and_fifo_eviction[OF d l, of "[]" "\<lambda>s. 0" "[]" fallback_models]
  note c = t[THEN conjunct2, THEN conjunct2, THEN conjunct1]
  note e = t[THEN conjunct2, THEN conjunct2, THEN conjunct2, THEN conjunct1, rule_format]
  note f = t[THEN conjunct2, THEN conjunct2, THEN conjunct2, THEN conjunct2,
             THEN conjunct1, rule_format]
  have e0: "cache_get 0 (cache_run fill_ops []) = None"
    using e[of 0] n[of 0] by simp
  have e99: "cache_get 99 (cache_run fill_ops []) = None"
    using e[of 99] n[of 99] by simp
  have k100: "cache_get 100 (cache_run fill_ops []) = Some 100"
    using f[of 100] n[of 100] by simp
  have k1000: "cache_get 1000 (cache_run fill_ops []) = Some 1000"
    using f[of 1000] n[of 1000] by simp
  from d l c e0 e99 k100 k1000 show ?thesis by (intro conjI)
qed

section \<open>Repeated processing and the caches\<close>

text \<open>
  C5, as stated, fails: for a text of fewer than three words the summary provider is
  not invoked at all. Starting from the fallback state with empty caches, processing
  \<open>Good idea.\<close> twice leaves the summary provider with 0 invocations (the sentiment
  provider with 1).
\<close>

theorem short_text_summary_provider_counterexample:
  "summary_calls
     (snd (process_comment_async (\<lambda>s. int (length s))
             (snd (process_comment_async (\<lambda>s. int (length s)) fallback_models
                     ''2025-01-01 00:00:00'' ''citizen'' ''Good idea.''))
             ''2025-01-01 00:00:01'' ''citizen'' ''Good idea.'')) = 0
   \<and> sentiment_calls
     (snd (process_comment_async (\<lambda>s. int (length s))
             (snd (process_comment_async (\<lambda>s. int (length s)) fallback_models
                     ''2025-01-01 00:00:00'' ''citizen'' ''Good idea.''))
             ''2025-01-01 00:00:01'' ''citizen'' ''Good idea.'')) = 1"
  by code_simp


text \<open>
  C5, amended. Let \<open>raw\<close> be the text cut to 300 characters, not yet present in either
  cache, and let both providers return on it. Processing the text twice in sequence then
  invokes the sentiment provider exactly once, and the summary provider exactly once
  when \<open>raw\<close> has at least three words and not at all otherwise; the second call is
  served without any provider call and leaves the state as the first call left it; both
  calls return the same sentiment label, sentiment score and summary.
\<close>

theorem second_call_served_from_cache:
  assumes raw: "raw = (if length T > 300 then take 300 T else T)"
    and fresh1: "cache_get (h raw) (sentiment_cache m) = None"
    and fresh2: "cache_get (h raw) (summary_cache m) = None"
    and ok1: "sentiment_analyzer m raw = Inr r"
    and ok2: "summarizer m raw = Inr s"
  shows "\<exists>d1 m1 d2.
           process_comment_async h m now st T = (Inr d1, m1)
         \<and> process_comment_async h m1 now st T = (Inr d2, m1)
         \<and> sentiment_calls m1 = sentiment_calls m + 1
         \<and> summary_calls m1 = summary_calls m + (if length (py_split raw) < 3 then 0 else 1)
         \<and> sentiment_label d2 = sentiment_label d1
         \<and> sentiment_score d2 = sentiment_score d1
         \<and> summary d2 = summary d1"
proof -
  let ?sent = "case best_sentiment r of Inl e \<Rightarrow> (''neutral'', 0.5) | Inr x \<Rightarrow> x"
  let ?ma = "m\<lparr>sentiment_cache := cache_put (h raw) r (sentiment_cache m),
               sentiment_calls := Suc (sentiment_calls m)\<rparr>"
  obtain l sc where lsc: "?sent = (l, sc)" by (cases ?sent)
  have a1: "analyze_sentiment_fast h m raw = (Inr (l, sc), ?ma)"
    using analyze_sentiment_fast_miss[of h raw m r] fresh1 ok1 lsc by simp
  have hit1: "cache_get (h raw) (sentiment_cache ?ma) = Some r"
    using cache_get_after_put[of "h raw" "sentiment_cache m" r] fresh1 by simp
  show ?thesis
  proof (cases "length (py_split raw) < 3")
    case True
    let ?summ = "if length raw \<le> 50 then take 50 raw else ellipsis47 raw"
    let ?d = "\<lparr>timestamp = now, stakeholder_type = st, raw_text = raw,
                sentiment_label = l, sentiment_score = sc, summary = ?summ\<rparr>"
    have p1: "process_comment_async h m now st T = (Inr ?d, ?ma)"
      using a1 generate_summary_fast_short[OF True, of h ?ma] raw
      by (simp add: process_comment_async_def Let_def)
    have a2: "analyze_sentiment_fast h ?ma raw = (Inr (l, sc), ?ma)"
      using analyze_sentiment_fast_hit[of h raw ?ma r] hit1 lsc by simp
    have p2: "process_comment_async h ?ma now st T = (Inr ?d, ?ma)"
      using a2 generate_summary_fast_short[OF True, of h ?ma] raw
      by (simp add: process_comment_async_def Let_def)
    from p1 p2 True show ?thesis
      by (intro exI[of _ ?d] exI[of _ ?ma]) simp
  next
    case False
    then have w: "3 \<le> length (py_split raw)" by simp
    let ?summ = "case s of
                   [] \<Rightarrow> if length raw > 47 then ellipsis47 raw else raw
                 | x # _ \<Rightarrow> if length x > 50 then ellipsis47 x else x"
    let ?mb = "?ma\<lparr>summary_cache := cache_put (h raw) s (summary_cache ?ma),
                 summary_calls := Suc (summary_calls ?ma)\<rparr>"
    let ?d = "\<lparr>timestamp = now, stakeholder_type = st, raw_text = raw,
                sentiment_label = l, sentiment_score = sc, summary = ?summ\<rparr>"
    have f2: "cache_get (h raw) (summary_cache ?ma) = None" using fresh2 by simp
    have o2: "summarizer ?ma raw = Inr s" using ok2 by simp
    have g1: "generate_summary_fast h ?ma raw = (Inr ?summ, ?mb)"
      using generate_summary_fast_miss[of raw h ?ma s] w f2 o2 by simp
    have p1: "process_comment_async h m now st T = (Inr ?d, ?mb)"
      using a1 g1 raw by (simp add: process_comment_async_def Let_def)
    have hit1': "cache_get (h raw) (sentiment_cache ?mb) = Some r"
      using hit1 by simp
    have hit2: "cache_get (h raw) (summary_cache ?mb) = Some s"
      using cache_get_after_put[of "h raw" "summary_cache ?ma" s] f2 by simp
    have a2: "analyze_sentiment_fast h ?mb raw = (Inr (l, sc), ?mb)"
      using analyze_sentiment_fast_hit[of h raw ?mb r] hit1' lsc by simp
    have g2: "generate_summary_fast h ?mb raw = (Inr ?summ, ?mb)"
      using generate_summary_fast_hit[of raw h ?mb s] w hit2 by simp
    have p2: "process_comment_async h ?mb now st T = (Inr ?d, ?mb)"
      using a2 g2 raw by (simp add: process_comment_async_def Let_def)
    from p1 p2 False show ?thesis
      by (intro exI[of _ ?d] exI[of _ ?mb]) simp
  qed
qed


theorem second_call_served_from_cache_witness:
  "cache_get (int (length ''I love this policy, it is excellent and will help everyone''))
      (sentiment_cache fallback_models) = None
   \<and> cache_get (int (length ''I love this policy, it is excellent and will help everyone''))
      (summary_cache fallback_models) = None
   \<and> (\<exists>d1 m1 d2.
         process_comment_async (\<lambda>s. int (length s)) fallback_models ''2025-01-01 00:00:00''
           ''citizen'' ''I love this policy, it is excellent and will help everyone''
           = (Inr d1, m1)
       \<and> process_comment_async (\<lambda>s. int (length s)) m1 ''2025-01-01 00:00:00''
           ''citizen'' ''I love this policy, it is excellent and will help everyone''
           = (Inr d2, m1)
       \<and> sentiment_calls m1 = 1 \<and> summary_calls m1 = 1
       \<and> sentiment_label d2 = sentiment_label d1
       \<and> sentiment_score d2 = sentiment_score d1
       \<and> summary d2 = summary d1)"
proof -
  let ?T = "''I love this policy, it is excellent and will help everyone''"
  let ?h = "\<lambda>s. int (length s)"
  have raw: "?T = (if length ?T > 300 then take 300 ?T else ?T)" by simp
  have f1: "cache_get (?h ?T) (sentiment_cache fallback_models) = None"
    by (simp add: fallback_models_def cache_get_def)
  have f2: "cache_get (?h ?T) (summary_cache fallback_models) = None"
    by (simp add: fallback_models_def cache_get_def)
  have o1: "sentiment_analyzer fallback_models ?T = Inr (Flat (FastSentimentAnalyzer ?T))"
    by (simp add: fallback_models_def)
  have o2: "summarizer fallback_models ?T = Inr (FastSummarizer ?T)"
    by (simp add: fallback_models_def)
  have w: "\<not> length (py_split ?T) < 3" by code_simp
  have c: "sentiment_calls fallback_models = 0" "summary_calls fallback_models = 0"
    by (simp_all add: fallback_models_def)
  from second_call_served_from_cache[of ?T ?T ?h fallback_models
         "Flat (FastSentimentAnalyzer ?T)" "FastSummarizer ?T"
         "''2025-01-01 00:00:00''" "''citizen''", OF raw f1 f2 o1 o2]
  obtain d1 m1 d2 where
    "process_comment_async ?h fallback_models ''2025-01-01 00:00:00'' ''citizen'' ?T
       = (Inr d1, m1)"
    "process_comment_async ?h m1 ''2025-01-01 00:00:00'' ''citizen'' ?T = (Inr d2, m1)"
    "sentiment_calls m1 = sentiment_calls fallback_models + 1"
    "summary_calls m1 = summary_calls fallback_models
        + (if length (py_split ?T) < 3 then 0 else 1)"
    "sentiment_label d2 = sentiment_label d1"
    "sentiment_score d2 = sentiment_score d1"
    "summary d2 = summary d1"
    by blast
  then have "\<exists>d1 m1 d2.
         process_comment_async ?h fallback_models ''2025-01-01 00:00:00'' ''citizen'' ?T
           = (Inr d1, m1)
       \<and> process_comment_async ?h m1 ''2025-01-01 00:00:00'' ''citizen'' ?T = (Inr d2, m1)
       \<and> sentiment_calls m1 = 1 \<and> summary_calls m1 = 1
       \<and> sentiment_label d2 = sentiment_label d1
       \<and> sentiment_score d2 = sentiment_score d1
       \<and> summary d2 = summary d1"
    using w c by (intro exI[of _ d1] exI[of _ m1] exI[of _ d2]) (simp only: if_False, simp)
  with f1 f2 show ?thesis by simp
qed

section \<open>The truncation summarizer\<close>

text \<open>
  C7, as stated, fails: \<open>FastSummarizer\<close> strips surrounding whitespace before anything
  else, so an input of at most 50 characters is not always returned as it is. The
  six-character text \<open> a b c\<close> (with a leading blank) is summarised as \<open>a b c\<close>.
\<close>

theorem summarizer_strips_counterexample:
  "length '' a b c'' \<le> 50 \<and> FastSummarizer '' a b c'' = [''a b c'']
   \<and> ''a b c'' \<noteq> '' a b c''"
  by code_simp



text \<open>
  C7, amended. For every input text, with s the text stripped of surrounding whitespace:
  if s is empty the summary is \<open>No content\<close>; if s has at most 50 characters the summary
  is s; otherwise, if none of the separators \<open>'. '\<close>, \<open>'! '\<close>, \<open>'? '\<close> occurs in s, the
  summary is the first 47 characters of s followed by an ellipsis; otherwise s is split on
  the first of these separators (in this order) that occurs in it, a non-blank segment
  exists, and the summary is the first non-blank segment, stripped, cut to its first 47
  characters followed by an ellipsis when it is longer than 47. The summary is always a
  single entry of at most 50 characters.
\<close>

theorem summarizer_strips_then_truncates:
  "(py_strip t = [] \<longrightarrow> FastSummarizer t = [''No content''])
   \<and> (py_strip t \<noteq> [] \<and> length (py_strip t) \<le> 50 \<longrightarrow> FastSummarizer t = [py_strip t])
   \<and> (50 < length (py_strip t) \<and> first_separator (py_strip t) = None
        \<longrightarrow> FastSummarizer t = [take 47 (py_strip t) @ ''...''])
   \<and> (50 < length (py_strip t) \<and> first_separator (py_strip t) = Some d
        \<longrightarrow> (\<exists>seg rest.
               filter (\<lambda>x. x \<noteq> []) (map py_strip (py_split_on d (py_strip t))) = seg # rest
             \<and> FastSummarizer t = [if 47 < length seg then take 47 seg @ ''...'' else seg]))
   \<and> (\<exists>x. FastSummarizer t = [x] \<and> length x \<le> 50)"
proof -
  let ?s = "py_strip t"
  have strip_Nil: "py_strip [] = []" by (simp add: py_strip_def)
  have c1: "?s = [] \<longrightarrow> FastSummarizer t = [''No content'']"
    by (simp add: FastSummarizer_def)
  have tne: "t \<noteq> []" if "?s \<noteq> []" using that strip_Nil by auto
  have c2: "?s \<noteq> [] \<and> length ?s \<le> 50 \<longrightarrow> FastSummarizer t = [?s]"
    using tne by (simp add: FastSummarizer_def Let_def)
  have c3: "50 < length ?s \<and> first_separator ?s = None
        \<longrightarrow> FastSummarizer t = [take 47 ?s @ ''...'']"
  proof
    assume a: "50 < length ?s \<and> first_separator ?s = None"
    then have "?s \<noteq> []" by auto
    with a tne show "FastSummarizer t = [take 47 ?s @ ''...'']"
      by (simp add: FastSummarizer_def Let_def first_sentences_separator ellipsis47_def)
  qed
  have c4: "50 < length ?s \<and> first_separator ?s = Some d
        \<longrightarrow> (\<exists>seg rest.
               filter (\<lambda>x. x \<noteq> []) (map py_strip (py_split_on d ?s)) = seg # rest
             \<and> FastSummarizer t = [if 47 < length seg then take 47 seg @ ''...'' else seg])"
  proof
    assume a: "50 < length ?s \<and> first_separator ?s = Some d"
    then have ne: "?s \<noteq> []" by auto
    from a first_separator_segments[of ?s d] ne py_strip_last[OF ne]
    obtain seg rest where
      sg: "filter (\<lambda>x. x \<noteq> []) (map py_strip (py_split_on d ?s)) = seg # rest"
      by (cases "filter (\<lambda>x. x \<noteq> []) (map py_strip (py_split_on d ?s))") auto
    have "FastSummarizer t = [if 47 < length seg then take 47 seg @ ''...'' else seg]"
      using a ne tne sg
      by (simp add: FastSummarizer_def Let_def first_sentences_separator ellipsis47_def)
    with sg show "\<exists>seg rest.
               filter (\<lambda>x. x \<noteq> []) (map py_strip (py_split_on d ?s)) = seg # rest
             \<and> FastSummarizer t = [if 47 < length seg then take 47 seg @ ''...'' else seg]"
      by blast
  qed
  have c5: "\<exists>x. FastSummarizer t = [x] \<and> length x \<le> 50"
  proof (cases "?s = []")
    case True
    with c1 show ?thesis by simp
  next
    case False
    show ?thesis
    proof (cases "length ?s \<le> 50")
      case True
      with False c2 show ?thesis by simp
    next
      case False
      then have long: "50 < length ?s" by simp
      show ?thesis
      proof (cases "first_separator ?s")
        case None
        with long c3 show ?thesis by simp
      next
        case (Some d')
        have "\<exists>seg. FastSummarizer t = [if 47 < length seg then take 47 seg @ ''...'' else seg]"
        proof -
          have ne: "?s \<noteq> []" using long by auto
          from first_separator_segments[OF Some ne py_strip_last[OF ne]]
          obtain seg rest where
            sg: "filter (\<lambda>x. x \<noteq> []) (map py_strip (py_split_on d' ?s)) = seg # rest"
            by (cases "filter (\<lambda>x. x \<noteq> []) (map py_strip (py_split_on d' ?s))") auto
          have "FastSummarizer t = [if 47 < length seg then take 47 seg @ ''...'' else seg]"
            using long ne tne sg Some
            by (simp add: FastSummarizer_def Let_def first_sentences_separator ellipsis47_def)
          then show ?thesis by blast
        qed
        then obtain seg where
          "FastSummarizer t = [if 47 < length seg then take 47 seg @ ''...'' else seg]" by blast
        then show ?thesis by auto
      qed
    qed
  qed
  from c1 c2 c3 c4 c5 show ?thesis by (intro conjI)
qed

theorem summarizer_strips_then_truncates_witness:
  "50 < length (py_strip '' This is the first sentence here. And this is the second one.  '')
   \<and> first_separator
        (py_strip '' This is the first sentence here. And this is the second one.  '')
       = Some ''. ''
   \<and> FastSummarizer '' This is the first sentence here. And this is the second one.  ''
       = [''This is the first sentence here'']"
proof -
  let ?t = "'' This is the first sentence here. And this is the second one.  ''"
  have a: "50 < length (py_strip ?t)" by code_simp
  have b: "first_separator (py_strip ?t) = Some ''. ''" by code_simp
  have c: "filter (\<lambda>x. x \<noteq> []) (map py_strip (py_split_on ''. '' (py_strip ?t)))
             = [''This is the first sentence here'', ''And this is the second one.'']"
    by code_simp
  note t = summarizer_strips_then_truncates[of ?t "''. ''"]
  note t4 = t[THEN conjunct2, THEN conjunct2, THEN conjunct2, THEN conjunct1, rule_format]
  from t4 a b obtain seg rest where
    "filter (\<lambda>x. x \<noteq> []) (map py_strip (py_split_on ''. '' (py_strip ?t))) = seg # rest"
    "FastSummarizer ?t = [if 47 < length seg then take 47 seg @ ''...'' else seg]"
    by blast
  with c have "FastSummarizer ?t = [''This is the first sentence here'']" by simp
  with a b show ?thesis by (intro conjI)
qed

section \<open>Determinism of the cache key\<close>

text \<open>
  C3, as stated, fails: the cache key is \<open>hash(text)\<close>, which depends on the hash secret
  of the process. A process started with the all-zero secret (\<open>PYTHONHASHSEED=0\<close>) files
  the text \<open>Good idea.\<close> under the key -5368392819505011827, a process started with the
  secret of \<open>PYTHONHASHSEED=1\<close> files it under -229419013560090355.
\<close>

theorem cache_key_differs_across_processes_counterexample:
  "map fst (sentiment_cache (snd (get_sentiment_cached (py_hash (0, 0))
       fallback_models ''Good idea.''))) = [- 5368392819505011827]
   \<and> map fst (sentiment_cache (snd (get_sentiment_cached
       (py_hash (12598376723466036009, 16999324916296290386))
       fallback_models ''Good idea.''))) = [- 229419013560090355]"
  by code_simp


text \<open>
  C3, amended. Within one process (one hash secret) the cache key of a text is the same
  at every call: a result that \<open>get_sentiment_cached\<close> or \<open>get_summary_cached\<close> stores for
  a text is filed under the hash of the text, and the next call for the same text finds
  it there and returns it without changing the state. Across process restarts the key
  is not determined by the text alone.
\<close>

theorem cache_key_stable_within_process:
  assumes "cache_get (py_hash secret text) (sentiment_cache m) = None"
    and "sentiment_analyzer m text = Inr r"
    and "cache_get (py_hash secret text) (summary_cache m) = None"
    and "summarizer m text = Inr s"
  shows "\<exists>m1 m2.
           get_sentiment_cached (py_hash secret) m text = (Inr r, m1)
         \<and> cache_get (py_hash secret text) (sentiment_cache m1) = Some r
         \<and> get_sentiment_cached (py_hash secret) m1 text = (Inr r, m1)
         \<and> get_summary_cached (py_hash secret) m text = (Inr s, m2)
         \<and> cache_get (py_hash secret text) (summary_cache m2) = Some s
         \<and> get_summary_cached (py_hash secret) m2 text = (Inr s, m2)"
proof -
  let ?k = "py_hash secret text"
  let ?m1 = "m\<lparr>sentiment_cache := cache_put ?k r (sentiment_cache m),
               sentiment_calls := Suc (sentiment_calls m)\<rparr>"
  let ?m2 = "m\<lparr>summary_cache := cache_put ?k s (summary_cache m),
               summary_calls := Suc (summary_calls m)\<rparr>"
  have a1: "get_sentiment_cached (py_hash secret) m text = (Inr r, ?m1)"
    using assms(1,2) by (simp add: get_sentiment_cached_def)
  have h1: "cache_get ?k (sentiment_cache ?m1) = Some r"
    using cache_get_after_put[of ?k "sentiment_cache m" r] assms(1) by simp
  have a2: "get_sentiment_cached (py_hash secret) ?m1 text = (Inr r, ?m1)"
    using h1 by (simp add: get_sentiment_cached_def)
  have b1: "get_summary_cached (py_hash secret) m text = (Inr s, ?m2)"
    using assms(3,4) by (simp add: get_summary_cached_def)
  have h2: "cache_get ?k (summary_cache ?m2) = Some s"
    using cache_get_after_put[of ?k "summary_cache m" s] assms(3) by simp
  have b2: "get_summary_cached (py_hash secret) ?m2 text = (Inr s, ?m2)"
    using h2 by (simp add: get_summary_cached_def)
  from a1 h1 a2 b1 h2 b2 show ?thesis
    by (intro exI[of _ ?m1] exI[of _ ?m2] conjI)
qed

theorem cache_key_stable_within_process_witness:
  "cache_get (py_hash (0, 0) ''I love this policy'') (sentiment_cache fallback_models) = None
   \<and> cache_get (py_hash (0, 0) ''I love this policy'') (summary_cache fallback_models) = None
   \<and> (\<exists>m1 m2.
         get_sentiment_cached (py_hash (0, 0)) fallback_models ''I love this policy''
           = (Inr (Flat [\<lparr>label = ''POSITIVE'', score = 0.8\<rparr>]), m1)
       \<and> get_sentiment_cached (py_hash (0, 0)) m1 ''I love this policy''
           = (Inr (Flat [\<lparr>label = ''POSITIVE'', score = 0.8\<rparr>]), m1)
       \<and> get_summary_cached (py_hash (0, 0)) fallback_models ''I love this policy''
           = (Inr [''I love this policy''], m2)
       \<and> get_summary_cached (py_hash (0, 0)) m2 ''I love this policy''
           = (Inr [''I love this policy''], m2))"
proof -
  let ?T = "''I love this policy''"
  have f1: "cache_get (py_hash (0, 0) ?T) (sentiment_cache fallback_models) = None"
    by (simp add: fallback_models_def cache_get_def)
  have f2: "cache_get (py_hash (0, 0) ?T) (summary_cache fallback_models) = None"
    by (simp add: fallback_models_def cache_get_def)
  have v1: "FastSentimentAnalyzer ?T = [\<lparr>label = ''POSITIVE'', score = 0.8\<rparr>]"
    by code_simp
  have v2: "FastSummarizer ?T = [?T]" by code_simp
  have o1: "sentiment_analyzer fallback_models ?T
              = Inr (Flat [\<lparr>label = ''POSITIVE'', score = 0.8\<rparr>])"
    using v1 by (simp add: fallback_models_def)
  have o2: "summarizer fallback_models ?T = Inr [?T]"
    using v2 by (simp add: fallback_models_def)
  from cache_key_stable_within_process[OF f1 o1 f2 o2]
  have "\<exists>m1 m2.
         get_sentiment_cached (py_hash (0, 0)) fallback_models ?T
           = (Inr (Flat [\<lparr>label = ''POSITIVE'', score = 0.8\<rparr>]), m1)
       \<and> get_sentiment_cached (py_hash (0, 0)) m1 ?T
           = (Inr (Flat [\<lparr>label = ''POSITIVE'', score = 0.8\<rparr>]), m1)
       \<and> get_summary_cached (py_hash (0, 0)) fallback_models ?T = (Inr [?T], m2)
       \<and> get_summary_cached (py_hash (0, 0)) m2 ?T = (Inr [?T], m2)"
    by blast
  with f1 f2 show ?thesis by (intro conjI)
qed

end
